theory Spec2Isabelle
  imports Main
begin

section \<open>Python strings and values shared by both tools\<close>

text \<open>
  A Python \<open>str\<close> is modelled as a \<open>string\<close>; a character is a code point below 256.
  \<open>LF\<close> is \<open>'\n'\<close> and \<open>CR\<close> is \<open>'\r'\<close>.
\<close>

abbreviation LF :: char where
  "LF \<equiv> CHR 0x0A"

abbreviation CR :: char where
  "CR \<equiv> CHR 0x0D"

datatype error = FileNotFoundError | ValueError | RuntimeError | csv_Error

text \<open>\<open>str.isspace\<close> on one character: the code points below 256 that Python treats as
  whitespace (9 to 13, 28 to 32, 133 and 160).\<close>

definition isspace :: "char \<Rightarrow> bool" where
  "isspace c \<longleftrightarrow> c \<in> set [CHR 0x09, CHR 0x0A, CHR 0x0B, CHR 0x0C, CHR 0x0D,
      CHR 0x1C, CHR 0x1D, CHR 0x1E, CHR 0x1F, CHR 0x20, CHR 0x85, CHR 0xA0]"

text \<open>\<open>s.strip()\<close>: whitespace removed at both ends.\<close>

definition strip :: "string \<Rightarrow> string" where
  "strip s = rev (dropWhile isspace (rev (dropWhile isspace s)))"

text \<open>\<open>s.split(sep)\<close> for a one-character separator: the pieces between the separators,
  empty pieces included; the empty string gives one empty piece.\<close>

fun split :: "char \<Rightarrow> string \<Rightarrow> string list" where
  "split sep [] = [[]]"
| "split sep (c # cs) =
     (if c = sep then [] # split sep cs
      else (let r = split sep cs in (c # hd r) # tl r))"

text \<open>\<open>str(n)\<close> for an integer: decimal digits, with a minus sign when negative.\<close>

fun str_nat :: "nat \<Rightarrow> string" where
  "str_nat n =
     (if n < 10 then [''0123456789'' ! n]
      else str_nat (n div 10) @ [''0123456789'' ! (n mod 10)])"

definition str_int :: "int \<Rightarrow> string" where
  "str_int i = (if i < 0 then CHR ''-'' # str_nat (nat (- i)) else str_nat (nat i))"

section \<open>json.dumps with indent=2\<close>

text \<open>
  The values the two tools serialise: \<open>None\<close>, integers, strings, lists and dictionaries
  with string keys (in insertion order). \<open>encode_basestring_ascii\<close> is the encoder's
  string escaping with \<open>ensure_ascii\<close> (the default).
\<close>

datatype json = JNull | JInt int | JStr string | JList "json list" | JDict "(string \<times> json) list"

definition hex4 :: "nat \<Rightarrow> string" where
  "hex4 n = [''0123456789abcdef'' ! (n div 4096 mod 16), ''0123456789abcdef'' ! (n div 256 mod 16),
             ''0123456789abcdef'' ! (n div 16 mod 16), ''0123456789abcdef'' ! (n mod 16)]"

definition escape_char :: "char \<Rightarrow> string" where
  "escape_char c =
     (if c = CHR 0x5C then [CHR 0x5C, CHR 0x5C]
      else if c = CHR 0x22 then [CHR 0x5C, CHR 0x22]
      else if c = CHR 0x08 then [CHR 0x5C, CHR ''b'']
      else if c = CHR 0x0C then [CHR 0x5C, CHR ''f'']
      else if c = LF then [CHR 0x5C, CHR ''n'']
      else if c = CR then [CHR 0x5C, CHR ''r'']
      else if c = CHR 0x09 then [CHR 0x5C, CHR ''t'']
      else if 32 \<le> (of_char c :: nat) \<and> (of_char c :: nat) \<le> 126 then [c]
      else [CHR 0x5C, CHR ''u''] @ hex4 (of_char c))"

definition encode_basestring_ascii :: "string \<Rightarrow> string" where
  "encode_basestring_ascii s = [CHR 0x22] @ concat (map escape_char s) @ [CHR 0x22]"

definition newline_indent :: "nat \<Rightarrow> string" where
  "newline_indent level = LF # replicate (2 * level) CHR '' ''"

fun join :: "string \<Rightarrow> string list \<Rightarrow> string" where
  "join sep [] = []"
| "join sep [x] = x"
| "join sep (x # y # ys) = x @ sep @ join sep (y # ys)"

fun iterencode :: "nat \<Rightarrow> json \<Rightarrow> string" where
  "iterencode level JNull = ''null''"
| "iterencode level (JInt i) = str_int i"
| "iterencode level (JStr s) = encode_basestring_ascii s"
| "iterencode level (JList xs) =
     (if xs = [] then ''[]''
      else ''['' @ newline_indent (Suc level)
           @ join ('','' @ newline_indent (Suc level)) (map (iterencode (Suc level)) xs)
           @ newline_indent level @ '']'')"
| "iterencode level (JDict kvs) =
     (if kvs = [] then ''{}''
      else ''{'' @ newline_indent (Suc level)
           @ join ('','' @ newline_indent (Suc level))
               (map (\<lambda>kv. encode_basestring_ascii (fst kv) @ '': '' @ iterencode (Suc level) (snd kv)) kvs)
           @ newline_indent level @ ''}'')"

definition json_dumps :: "json \<Rightarrow> string" where
  "json_dumps v = iterencode 0 v"

section \<open>git-stats.py\<close>

text \<open>
  \<open>subprocess.run(..., capture_output=True, text=True)\<close> is the external tool: a function
  from the argument vector to the completed process, of which the code reads the return
  code and the captured standard output.
\<close>

record CompletedProcess =
  returncode :: int
  stdout :: string

type_synonym subprocess = "string list \<Rightarrow> CompletedProcess"

definition get_author_count :: "subprocess \<Rightarrow> string \<Rightarrow> error + int" where
  "get_author_count run repo_path =
     (let result = run [''git'', ''-C'', repo_path, ''log'', ''--format=%ae'']
      in if returncode result \<noteq> 0 then Inl RuntimeError
         else (let authors = set (split LF (strip (stdout result)))
               in Inr (int (card authors))))"

definition get_branch_count :: "subprocess \<Rightarrow> string \<Rightarrow> error + int" where
  "get_branch_count run repo_path =
     (let result = run [''git'', ''-C'', repo_path, ''branch'', ''-a'']
      in if returncode result \<noteq> 0 then Inl RuntimeError
         else (let branches = map strip (filter (\<lambda>line. strip line \<noteq> []) (split LF (stdout result)))
               in Inr (int (length branches))))"

record StatsRecord =
  commits :: int
  authors :: int
  branches :: int

text \<open>\<open>print(s)\<close> appends \<open>s\<close> and a newline to the standard output.\<close>

definition print :: "string \<Rightarrow> string \<Rightarrow> string" where
  "print out s = out @ s @ [LF]"

definition stats_json :: "StatsRecord \<Rightarrow> json" where
  "stats_json stats = JDict [(''commits'', JInt (commits stats)), (''authors'', JInt (authors stats)),
                             (''branches'', JInt (branches stats))]"

text \<open>\<open>display_stats\<close> returns the text it writes to the standard output.\<close>

definition display_stats :: "StatsRecord \<Rightarrow> string \<Rightarrow> string" where
  "display_stats stats output_format =
     (if output_format = ''json'' then print [] (json_dumps (stats_json stats))
      else (let out = print [] ''Git Repository Statistics'';
                out = print out (replicate 40 CHR ''='');
                out = print out (''Commits:  '' @ str_int (commits stats));
                out = print out (''Authors:  '' @ str_int (authors stats));
                out = print out (''Branches: '' @ str_int (branches stats))
            in out))"

text \<open>
  The external tool's output for a history: \<open>git log --format=%ae\<close> prints one line per
  commit, the e-mail address followed by a newline. A line is non-blank when it holds a
  character that is not whitespace.
\<close>

definition log_output :: "string list \<Rightarrow> string" where
  "log_output emails = concat (map (\<lambda>e. e @ [LF]) emails)"

definition nonblank :: "string \<Rightarrow> bool" where
  "nonblank line \<longleftrightarrow> (\<exists>c \<in> set line. \<not> isspace c)"

definition branch_listing :: subprocess where
  "branch_listing args = \<lparr>returncode = 0,
      stdout = ''* main'' @ [LF] @ ''  dev'' @ [LF] @ ''  '' @ [LF] @ ''  remotes/origin/main'' @ [LF]\<rparr>"

section \<open>data_processor.py\<close>

subsection \<open>pathlib (POSIX flavour, Python 3.11)\<close>

text \<open>
  \<open>Path(s)\<close> for a single argument: \<open>splitroot\<close> takes the leading slashes off (exactly
  two of them are kept as the root \<open>//\<close>), the rest is split at \<open>/\<close> and the empty and
  \<open>.\<close> components are dropped. \<open>parts\<close> holds the root first, when there is one, as
  \<open>_parts\<close> does.
\<close>

record PurePath =
  root :: string
  parts :: "string list"

definition splitroot :: "string \<Rightarrow> string \<times> string" where
  "splitroot part =
     (if part \<noteq> [] \<and> hd part = CHR ''/'' then
        (let stripped_part = dropWhile (\<lambda>c. c = CHR ''/'') part
         in if length part - length stripped_part = 2 then (''//'', stripped_part)
            else (''/'', stripped_part))
      else ([], part))"

definition Path :: "string \<Rightarrow> PurePath" where
  "Path s =
     (if s = [] then \<lparr>root = [], parts = []\<rparr>
      else (let (root, rel) = splitroot s;
                parsed = filter (\<lambda>x. x \<noteq> [] \<and> x \<noteq> ''.'') (split CHR ''/'' rel)
            in \<lparr>root = root, parts = (if root \<noteq> [] then [root] else []) @ parsed\<rparr>))"

text \<open>\<open>str(path)\<close>, \<open>path.name\<close> and \<open>path.suffix\<close>. \<open>rfind\<close> is \<open>str.rfind\<close> for one
  character: the last index of the character, or -1.\<close>

definition str_path :: "PurePath \<Rightarrow> string" where
  "str_path p =
     (let s = (if root p \<noteq> [] then root p @ join ''/'' (tl (parts p)) else join ''/'' (parts p))
      in if s = [] then ''.'' else s)"

definition name :: "PurePath \<Rightarrow> string" where
  "name p = (if length (parts p) = (if root p \<noteq> [] then 1 else 0) then [] else last (parts p))"

definition rfind :: "char \<Rightarrow> string \<Rightarrow> int" where
  "rfind c s =
     (if c \<in> set s then int (length s) - 1 - int (length (takeWhile (\<lambda>x. x \<noteq> c) (rev s)))
      else - 1)"

definition suffix :: "PurePath \<Rightarrow> string" where
  "suffix p =
     (let name = name p; i = rfind CHR ''.'' name
      in if 0 < i \<and> i < int (length name) - 1 then drop (nat i) name else [])"

subsection \<open>The file system and text files\<close>

text \<open>
  The file system maps the text of a path to the text of the regular file there. A path
  exists when it is in the domain of the map. Directories, permissions, the decoding
  of bytes and other failures of the operating system are outside of the model.
  Reading a file in text mode translates \<open>'\r\n'\<close> and \<open>'\r'\<close> to \<open>'\n'\<close>
  (\<open>universal_newlines\<close>); iterating it gives its lines, each with its newline
  (\<open>readlines\<close>).
\<close>

type_synonym filesystem = "string \<rightharpoonup> string"

fun universal_newlines :: "string \<Rightarrow> string" where
  "universal_newlines [] = []"
| "universal_newlines [c] = [if c = CR then LF else c]"
| "universal_newlines (c # d # ds) =
     (if c = CR \<and> d = LF then LF # universal_newlines ds
      else if c = CR then LF # universal_newlines (d # ds)
      else c # universal_newlines (d # ds))"

fun readlines :: "string \<Rightarrow> string list" where
  "readlines [] = []"
| "readlines (c # cs) =
     (if c = LF then [LF] # readlines cs
      else (case readlines cs of [] \<Rightarrow> [[c]] | l # ls \<Rightarrow> (c # l) # ls))"

subsection \<open>csv.reader with the default dialect\<close>

text \<open>
  The reader's state machine for the \<open>excel\<close> dialect: delimiter \<open>,\<close>, quote character
  \<open>"\<close>, doubled quotes, no escape character, not strict. The states that only an escape
  character enters are left out. The reader receives every character of a line and
  then the end-of-line marker \<open>EOL\<close>.

  \<open>parse_add_char\<close> raises the reader's error when the field under way has already
  reached the module's \<open>field_limit\<close>, which is 128 * 1024 characters. The limit is the
  parameter \<open>limit\<close> of the reader's functions: \<open>Some n\<close> is the limit \<open>n\<close>, and \<open>None\<close> is
  a reader without the check, which only serves to say how long the fields of a text
  are. \<open>DictReader\<close> below runs the reader with \<open>Some field_limit\<close>.
\<close>

datatype parser_state =
  START_RECORD | START_FIELD | IN_FIELD | IN_QUOTED_FIELD | QUOTE_IN_QUOTED_FIELD | EAT_CRNL

datatype input = Ch char | EOL

record ReaderObj =
  fields' :: "string list"
  field :: string
  state :: parser_state

definition field_limit :: nat where
  "field_limit = 128 * 1024"

definition parse_reset :: ReaderObj where
  "parse_reset = \<lparr>fields' = [], field = [], state = START_RECORD\<rparr>"

definition parse_save_field :: "ReaderObj \<Rightarrow> ReaderObj" where
  "parse_save_field self = self\<lparr>fields' := fields' self @ [field self], field := []\<rparr>"

definition parse_add_char :: "nat option \<Rightarrow> ReaderObj \<Rightarrow> char \<Rightarrow> error + ReaderObj" where
  "parse_add_char limit self c =
     (if (case limit of None \<Rightarrow> False | Some n \<Rightarrow> length (field self) \<ge> n) then Inl csv_Error
      else Inr (self\<lparr>field := field self @ [c]\<rparr>))"

text \<open>\<open>add_then limit self c st\<close>: add the character, and on success go to the state \<open>st\<close>.\<close>

definition add_then :: "nat option \<Rightarrow> ReaderObj \<Rightarrow> char \<Rightarrow> parser_state \<Rightarrow> error + ReaderObj" where
  "add_then limit self c st =
     (case parse_add_char limit self c of
        Inl e \<Rightarrow> Inl e
      | Inr self' \<Rightarrow> Inr (self'\<lparr>state := st\<rparr>))"

definition start_field :: "nat option \<Rightarrow> ReaderObj \<Rightarrow> input \<Rightarrow> error + ReaderObj" where
  "start_field limit self c =
     (case c of
        EOL \<Rightarrow> Inr ((parse_save_field self)\<lparr>state := START_RECORD\<rparr>)
      | Ch x \<Rightarrow>
          if x = LF \<or> x = CR then Inr ((parse_save_field self)\<lparr>state := EAT_CRNL\<rparr>)
          else if x = CHR 0x22 then Inr (self\<lparr>state := IN_QUOTED_FIELD\<rparr>)
          else if x = CHR '','' then Inr (parse_save_field self)
          else add_then limit self x IN_FIELD)"

definition parse_process_char :: "nat option \<Rightarrow> ReaderObj \<Rightarrow> input \<Rightarrow> error + ReaderObj" where
  "parse_process_char limit self c =
     (case state self of
        START_RECORD \<Rightarrow>
          (case c of
             EOL \<Rightarrow> Inr self
           | Ch x \<Rightarrow>
               if x = LF \<or> x = CR then Inr (self\<lparr>state := EAT_CRNL\<rparr>)
               else start_field limit (self\<lparr>state := START_FIELD\<rparr>) c)
      | START_FIELD \<Rightarrow> start_field limit self c
      | IN_FIELD \<Rightarrow>
          (case c of
             EOL \<Rightarrow> Inr ((parse_save_field self)\<lparr>state := START_RECORD\<rparr>)
           | Ch x \<Rightarrow>
               if x = LF \<or> x = CR then Inr ((parse_save_field self)\<lparr>state := EAT_CRNL\<rparr>)
               else if x = CHR '','' then Inr ((parse_save_field self)\<lparr>state := START_FIELD\<rparr>)
               else parse_add_char limit self x)
      | IN_QUOTED_FIELD \<Rightarrow>
          (case c of
             EOL \<Rightarrow> Inr self
           | Ch x \<Rightarrow>
               if x = CHR 0x22 then Inr (self\<lparr>state := QUOTE_IN_QUOTED_FIELD\<rparr>)
               else parse_add_char limit self x)
      | QUOTE_IN_QUOTED_FIELD \<Rightarrow>
          (case c of
             EOL \<Rightarrow> Inr ((parse_save_field self)\<lparr>state := START_RECORD\<rparr>)
           | Ch x \<Rightarrow>
               if x = CHR 0x22 then add_then limit self x IN_QUOTED_FIELD
               else if x = CHR '','' then Inr ((parse_save_field self)\<lparr>state := START_FIELD\<rparr>)
               else if x = LF \<or> x = CR then Inr ((parse_save_field self)\<lparr>state := EAT_CRNL\<rparr>)
               else add_then limit self x IN_FIELD)
      | EAT_CRNL \<Rightarrow>
          (case c of
             EOL \<Rightarrow> Inr (self\<lparr>state := START_RECORD\<rparr>)
           | Ch x \<Rightarrow> if x = LF \<or> x = CR then Inr self else Inl csv_Error))"

text \<open>One line: its characters, then \<open>EOL\<close>.\<close>

fun parse_line :: "nat option \<Rightarrow> ReaderObj \<Rightarrow> string \<Rightarrow> error + ReaderObj" where
  "parse_line limit self [] = parse_process_char limit self EOL"
| "parse_line limit self (c # cs) =
     (case parse_process_char limit self (Ch c) of
        Inl e \<Rightarrow> Inl e
      | Inr self' \<Rightarrow> parse_line limit self' cs)"

text \<open>
  \<open>reader_rows limit self lines\<close> is every record the reader yields from the lines still
  to come, \<open>self\<close> being the state of the record under way. A record ends with a line
  that leaves the state \<open>START_RECORD\<close>, and the next one starts from \<open>parse_reset\<close>. When
  the lines run out inside a record (a field under way or an open quote), the reader,
  not being strict, saves the field and yields the record; otherwise it stops. An
  error of the reader ends the iteration.
\<close>

fun reader_rows :: "nat option \<Rightarrow> ReaderObj \<Rightarrow> string list \<Rightarrow> error + string list list" where
  "reader_rows limit self [] =
     (if field self \<noteq> [] \<or> state self = IN_QUOTED_FIELD
      then Inr [fields' (parse_save_field self)] else Inr [])"
| "reader_rows limit self (lineobj # rest) =
     (case parse_line limit self lineobj of
        Inl e \<Rightarrow> Inl e
      | Inr self' \<Rightarrow>
          if state self' \<noteq> START_RECORD then reader_rows limit self' rest
          else (case reader_rows limit parse_reset rest of
                  Inl e \<Rightarrow> Inl e
                | Inr rows \<Rightarrow> Inr (fields' self' # rows)))"

subsection \<open>csv.DictReader\<close>

text \<open>
  A row is a Python dictionary in insertion order: the keys are column names or \<open>None\<close>
  (the \<open>restkey\<close>), the values are strings, \<open>None\<close> (the \<open>restval\<close>) or the list of the
  values beyond the header. \<open>dict_set\<close> is \<open>d[k] = v\<close>: a key already there keeps its
  place and takes the new value, a new key goes to the end.
\<close>

datatype pyvalue = Str string | PyNone | Rest "string list"

type_synonym row = "(string option \<times> pyvalue) list"

fun dict_set :: "row \<Rightarrow> string option \<Rightarrow> pyvalue \<Rightarrow> row" where
  "dict_set [] k v = [(k, v)]"
| "dict_set (p # ps) k v = (if fst p = k then (k, v) # ps else p # dict_set ps k v)"


definition dict :: "(string option \<times> pyvalue) list \<Rightarrow> row" where
  "dict kvs = fold (\<lambda>kv d. dict_set d (fst kv) (snd kv)) kvs []"

text \<open>The dictionary that \<open>DictReader.__next__\<close> builds from the header and a record.\<close>

definition make_row :: "string list \<Rightarrow> string list \<Rightarrow> row" where
  "make_row fieldnames row =
     (let d = dict (zip (map Some fieldnames) (map Str row));
          lf = length fieldnames;
          lr = length row
      in if lf < lr then dict_set d None (Rest (drop lf row))
         else if lf > lr then fold (\<lambda>key d. dict_set d (Some key) PyNone) (drop lr fieldnames) d
         else d)"

text \<open>
  Iterating the \<open>DictReader\<close> to its end: the first record of the reader is the header
  (no record: no rows), the empty records after it are skipped, every other record
  becomes a row.
\<close>

definition DictReader :: "string list \<Rightarrow> error + row list" where
  "DictReader f =
     (case reader_rows (Some field_limit) parse_reset f of
        Inl e \<Rightarrow> Inl e
      | Inr [] \<Rightarrow> Inr []
      | Inr (fieldnames # rows) \<Rightarrow> Inr (map (make_row fieldnames) (filter (\<lambda>row. row \<noteq> []) rows)))"

subsection \<open>process_csv\<close>

record ConversionResult =
  data :: "row list"
  count :: int
  source :: string

definition value_json :: "pyvalue \<Rightarrow> json" where
  "value_json v = (case v of Str s \<Rightarrow> JStr s | PyNone \<Rightarrow> JNull | Rest xs \<Rightarrow> JList (map JStr xs))"

definition key_json :: "string option \<Rightarrow> string" where
  "key_json k = (case k of Some s \<Rightarrow> s | None \<Rightarrow> ''null'')"

definition row_json :: "row \<Rightarrow> json" where
  "row_json d = JDict (map (\<lambda>kv. (key_json (fst kv), value_json (snd kv))) d)"

definition result_json :: "ConversionResult \<Rightarrow> json" where
  "result_json result = JDict [(''data'', JList (map row_json (data result))),
     (''count'', JInt (count result)), (''source'', JStr (source result))]"

text \<open>
  \<open>process_csv\<close> takes the file system and returns the outcome (the exception raised, or
  the dictionary returned) and the file system it leaves. \<open>output_file\<close> is \<open>None\<close> or a
  string; the empty string is as false as \<open>None\<close>. The log messages are not modelled.
\<close>

definition process_csv ::
  "filesystem \<Rightarrow> string \<Rightarrow> string option \<Rightarrow> (error + ConversionResult) \<times> filesystem" where
  "process_csv fs input_file output_file =
     (let input_path = Path input_file
      in case fs (str_path input_path) of
           None \<Rightarrow> (Inl FileNotFoundError, fs)
         | Some content \<Rightarrow>
             if \<not> suffix input_path = ''.csv'' then (Inl ValueError, fs)
             else (case DictReader (readlines (universal_newlines content)) of
                     Inl e \<Rightarrow> (Inl e, fs)
                   | Inr rows \<Rightarrow>
                       (let result = \<lparr>data = rows, count = int (length rows),
                                      source = str_path input_path\<rparr>
                        in case output_file of
                             None \<Rightarrow> (Inr result, fs)
                           | Some out \<Rightarrow>
                               if out = [] then (Inr result, fs)
                               else (Inr result,
                                     fs(str_path (Path out) \<mapsto> json_dumps (result_json result))))))"

subsection \<open>Sample inputs\<close>

text \<open>
  The file of the specification's scenario, and a file system holding it under a
  lower-case and an upper-case extension, next to a file with a short row, a file with
  a header only and an empty file.
\<close>

definition sample_csv :: string where
  "sample_csv = ''a,b'' @ [LF] @ ''1,2'' @ [LF] @ ''3,4''"

definition sample_fs :: filesystem where
  "sample_fs = [''in.csv'' \<mapsto> sample_csv, ''data.CSV'' \<mapsto> sample_csv,
                ''short.csv'' \<mapsto> ''a,b'' @ [LF] @ ''1'' @ [LF],
                ''header.csv'' \<mapsto> ''a,b'' @ [LF],
                ''empty.csv'' \<mapsto> []]"

text \<open>A line as text mode yields it: no carriage return, and a newline only at its end.\<close>

definition line_ok :: "string \<Rightarrow> bool" where
  "line_ok l \<longleftrightarrow> CR \<notin> set l \<and> LF \<notin> set (butlast l)"

subsection \<open>The lengths of the fields of a text\<close>

text \<open>
  \<open>fields_within_limit lines\<close>: every field of every record of the lines, as the reader
  without the check splits them, has at most \<open>field_limit\<close> characters.
  \<open>input_rows content\<close> is the header of a file and the records after it that are not
  empty, as \<open>csv.reader\<close> yields them: the input rows from which \<open>DictReader\<close> builds its
  rows, in the order of the file.
\<close>

definition fields_within_limit :: "string list \<Rightarrow> bool" where
  "fields_within_limit lines =
     (case reader_rows None parse_reset lines of
        Inl e \<Rightarrow> False
      | Inr rows \<Rightarrow> list_all (list_all (\<lambda>f. length f \<le> field_limit)) rows)"


text \<open>
  Two facts about a state of the reader, for the proofs: \<open>within n self\<close>, the field
  under way and the fields saved have at most \<open>n\<close> characters; \<open>settled self\<close>, no field
  is under way between two records.
\<close>

definition within :: "nat \<Rightarrow> ReaderObj \<Rightarrow> bool" where
  "within n self \<longleftrightarrow> length (field self) \<le> n \<and> list_all (\<lambda>f. length f \<le> n) (fields' self)"

definition settled :: "ReaderObj \<Rightarrow> bool" where
  "settled self \<longleftrightarrow> (state self = START_RECORD \<or> state self = EAT_CRNL \<longrightarrow> field self = [])"

text \<open>
  More sample inputs: a file of one line, the header, whose only field has one character
  more than the limit; a file with a short row, a blank line and a long row; a log of
  three commits by two authors; and what \<open>git log\<close> gives on a repository without
  commits, where it exits with the code 128 and prints nothing on its standard output.
\<close>

definition long_header :: string where
  "long_header = replicate 131073 CHR ''a''"


definition sample_log :: subprocess where
  "sample_log args = \<lparr>returncode = 0, stdout = log_output [''a@x'', ''b@x'', ''a@x'']\<rparr>"

definition no_commits_log :: subprocess where
  "no_commits_log args = \<lparr>returncode = 128, stdout = []\<rparr>"

section \<open>Properties of git-stats.py\<close>

lemma str_int_digit: "0 \<le> i \<Longrightarrow> i < 10 \<Longrightarrow> str_int i = [''0123456789'' ! nat i]"
  by (simp add: str_int_def)

text \<open>
  Claim C7. For the record with 5 commits, 2 authors and 3 branches, the text format
  prints the title, a rule of forty equals signs and then exactly the three lines
  \<open>Commits:  5\<close>, \<open>Authors:  2\<close> and \<open>Branches: 3\<close>.
\<close>

theorem display_stats_text_5_2_3:
  "display_stats \<lparr>commits = 5, authors = 2, branches = 3\<rparr> ''text'' =
     ''Git Repository Statistics'' @ [LF] @ replicate 40 CHR ''='' @ [LF]
     @ ''Commits:  5'' @ [LF] @ ''Authors:  2'' @ [LF] @ ''Branches: 3'' @ [LF]"
  by (simp add: display_stats_def print_def str_int_digit Let_def)

subsection \<open>Branches\<close>

lemma strip_Nil_iff: "strip s = [] \<longleftrightarrow> (\<forall>c \<in> set s. isspace c)"
proof
  assume "strip s = []"
  then have a: "\<forall>x \<in> set (dropWhile isspace s). isspace x"
    by (simp add: strip_def dropWhile_eq_Nil_conv)
  have "dropWhile isspace s = []"
  proof (rule ccontr)
    assume n: "dropWhile isspace s \<noteq> []"
    then have "\<not> isspace (hd (dropWhile isspace s))" by (rule hd_dropWhile)
    moreover have "hd (dropWhile isspace s) \<in> set (dropWhile isspace s)" using n by simp
    ultimately show False using a by blast
  qed
  then show "\<forall>c \<in> set s. isspace c" by (simp add: dropWhile_eq_Nil_conv)
next
  assume "\<forall>c \<in> set s. isspace c"
  then have "dropWhile isspace s = []" by (simp add: dropWhile_eq_Nil_conv)
  then show "strip s = []" by (simp only: strip_def rev.simps dropWhile.simps)
qed

lemma strip_nonblank: "strip s \<noteq> [] \<longleftrightarrow> nonblank s"
  by (auto simp: strip_Nil_iff nonblank_def)

lemma nonblank_simps:
  "nonblank [] = False"
  "nonblank (c # cs) = (\<not> isspace c \<or> nonblank cs)"
  by (auto simp: nonblank_def)

text \<open>
  Claim C8. When the branch listing succeeds (return code 0), \<open>get_branch_count\<close>
  returns the number of non-blank lines of the listing, the lines being the pieces
  between newlines, and the number it returns is never negative.
\<close>

theorem get_branch_count_nonblank_lines:
  assumes "returncode (run [''git'', ''-C'', repo_path, ''branch'', ''-a'']) = 0"
  shows "get_branch_count run repo_path =
           Inr (int (length (filter nonblank
                  (split LF (stdout (run [''git'', ''-C'', repo_path, ''branch'', ''-a'']))))))
         \<and> (\<forall>n. get_branch_count run repo_path = Inr n \<longrightarrow> 0 \<le> n)"
  using assms by (auto simp: get_branch_count_def Let_def strip_nonblank)

theorem get_branch_count_nonblank_lines_witness:
  "returncode (branch_listing [''git'', ''-C'', ''.'', ''branch'', ''-a'']) = 0
   \<and> get_branch_count branch_listing ''.'' = Inr 3"
  using get_branch_count_nonblank_lines [of branch_listing "''.''"]
  by (simp add: branch_listing_def nonblank_simps isspace_def)

subsection \<open>Authors\<close>

lemma split_no_sep: "sep \<notin> set s \<Longrightarrow> split sep s = [s]"
  by (induction s) (auto simp: Let_def)

lemma split_append_sep:
  "sep \<notin> set e \<Longrightarrow> split sep (e @ sep # s) = e # split sep s"
  by (induction e) (auto simp: Let_def)

lemma split_join:
  "es \<noteq> [] \<Longrightarrow> \<forall>e \<in> set es. sep \<notin> set e \<Longrightarrow> split sep (join [sep] es) = es"
  by (induction "[sep]" es rule: join.induct) (auto simp: split_no_sep split_append_sep)

lemma log_output_join: "es \<noteq> [] \<Longrightarrow> log_output es = join [LF] es @ [LF]"
  by (induction "[LF]" es rule: join.induct) (auto simp: log_output_def)

lemma hd_join: "es \<noteq> [] \<Longrightarrow> hd es \<noteq> [] \<Longrightarrow> hd (join sep es) = hd (hd es)"
  by (induction sep es rule: join.induct) auto

lemma join_not_Nil: "es \<noteq> [] \<Longrightarrow> last es \<noteq> [] \<Longrightarrow> join sep es \<noteq> []"
  by (induction sep es rule: join.induct) auto

lemma last_join: "es \<noteq> [] \<Longrightarrow> last es \<noteq> [] \<Longrightarrow> last (join sep es) = last (last es)"
  by (induction sep es rule: join.induct) (auto simp: join_not_Nil)

lemma strip_log_output:
  assumes "es \<noteq> []" "hd es \<noteq> []" "\<not> isspace (hd (hd es))"
    "last es \<noteq> []" "\<not> isspace (last (last es))"
  shows "strip (log_output es) = join [LF] es"
proof -
  let ?j = "join [LF] es"
  have j: "?j \<noteq> []" using assms by (simp add: join_not_Nil)
  have h: "\<not> isspace (hd ?j)" using assms by (simp add: hd_join)
  have l: "\<not> isspace (last ?j)" using assms by (simp add: last_join)
  have 1: "dropWhile isspace (?j @ [LF]) = ?j @ [LF]"
    using j h by (cases ?j) auto
  have 2: "dropWhile isspace (rev ?j) = rev ?j"
    using j l by (cases "rev ?j") (auto simp: last_rev hd_rev[symmetric])
  have "isspace LF" by (simp add: isspace_def)
  then show ?thesis
    using assms(1) 1 2 by (simp add: strip_def log_output_join)
qed

lemma get_author_count_distinct:
  assumes "returncode (run [''git'', ''-C'', repo_path, ''log'', ''--format=%ae'']) = 0"
    and "stdout (run [''git'', ''-C'', repo_path, ''log'', ''--format=%ae'']) = log_output es"
    and "es \<noteq> []" "\<forall>e \<in> set es. LF \<notin> set e"
    and "hd es \<noteq> []" "\<not> isspace (hd (hd es))" "last es \<noteq> []" "\<not> isspace (last (last es))"
  shows "get_author_count run repo_path = Inr (int (card (set es)))"
  using assms by (simp add: get_author_count_def strip_log_output split_join)

text \<open>
  Claim C3, as the claim states it, fails: it has \<open>get_author_count\<close> return 0 for a
  repository without commits. There \<open>git log\<close> exits with a code that is not 0, and the
  check of the return code raises \<open>RuntimeError\<close>: no count is returned.
\<close>

theorem get_author_count_no_commits:
  "get_author_count no_commits_log ''.'' = Inl RuntimeError
   \<and> get_author_count no_commits_log ''.'' \<noteq> Inr 0"
  by (simp add: get_author_count_def no_commits_log_def)

text \<open>
  Claim C3, amended. When the log fails, \<open>get_author_count\<close> raises \<open>RuntimeError\<close>. When
  the log succeeds and lists the author addresses (\<open>%ae\<close>) of at least one commit, none
  of them holding a newline, the first of them not empty and not starting with
  whitespace, the last not empty and not ending with whitespace, \<open>get_author_count\<close>
  returns the number of distinct addresses.
\<close>

theorem get_author_count_authors:
  "(returncode (run [''git'', ''-C'', repo_path, ''log'', ''--format=%ae'']) \<noteq> 0 \<longrightarrow>
      get_author_count run repo_path = Inl RuntimeError)
   \<and> (returncode (run [''git'', ''-C'', repo_path, ''log'', ''--format=%ae'']) = 0
       \<and> stdout (run [''git'', ''-C'', repo_path, ''log'', ''--format=%ae'']) = log_output es
       \<and> es \<noteq> [] \<and> (\<forall>e \<in> set es. LF \<notin> set e)
       \<and> hd es \<noteq> [] \<and> \<not> isspace (hd (hd es))
       \<and> last es \<noteq> [] \<and> \<not> isspace (last (last es)) \<longrightarrow>
      get_author_count run repo_path = Inr (int (card (set es))))"
proof (intro conjI impI)
  assume "returncode (run [''git'', ''-C'', repo_path, ''log'', ''--format=%ae'']) \<noteq> 0"
  then show "get_author_count run repo_path = Inl RuntimeError"
    by (simp add: get_author_count_def)
next
  assume "returncode (run [''git'', ''-C'', repo_path, ''log'', ''--format=%ae'']) = 0
       \<and> stdout (run [''git'', ''-C'', repo_path, ''log'', ''--format=%ae'']) = log_output es
       \<and> es \<noteq> [] \<and> (\<forall>e \<in> set es. LF \<notin> set e)
       \<and> hd es \<noteq> [] \<and> \<not> isspace (hd (hd es))
       \<and> last es \<noteq> [] \<and> \<not> isspace (last (last es))"
  then show "get_author_count run repo_path = Inr (int (card (set es)))"
    by (intro get_author_count_distinct) simp_all
qed

theorem get_author_count_authors_witness:
  "returncode (sample_log [''git'', ''-C'', ''.'', ''log'', ''--format=%ae'']) = 0
   \<and> stdout (sample_log [''git'', ''-C'', ''.'', ''log'', ''--format=%ae''])
       = log_output [''a@x'', ''b@x'', ''a@x'']
   \<and> card (set [''a@x'', ''b@x'', ''a@x'']) = 2
   \<and> get_author_count sample_log ''.'' = Inr 2
   \<and> returncode (no_commits_log [''git'', ''-C'', ''/tmp/new'', ''log'', ''--format=%ae'']) \<noteq> 0
   \<and> get_author_count no_commits_log ''/tmp/new'' = Inl RuntimeError"
proof -
  have c: "card (set [''a@x'', ''b@x'', ''a@x'']) = 2"
    by (simp add: card_insert_if)
  from get_author_count_authors [of sample_log "''.''" "[''a@x'', ''b@x'', ''a@x'']"]
    get_author_count_authors [of no_commits_log "''/tmp/new''" "[]"]
  have "get_author_count sample_log ''.'' = Inr (int (card (set [''a@x'', ''b@x'', ''a@x''])))"
    and "get_author_count no_commits_log ''/tmp/new'' = Inl RuntimeError"
    by (simp_all add: sample_log_def no_commits_log_def isspace_def)
  with c show ?thesis
    by (simp add: sample_log_def no_commits_log_def)
qed

text \<open>
  The amended claim is silent on a log whose first or last address is empty. There an
  empty address is lost with the whitespace that \<open>strip\<close> removes: two distinct
  addresses, the first of them empty, count as one.
\<close>

lemma get_author_count_empty_first_address:
  "get_author_count (\<lambda>args. \<lparr>returncode = 0, stdout = log_output [[], ''a@x'']\<rparr>) repo_path = Inr 1
   \<and> card (set [[], ''a@x'']) = 2"
  by (simp add: get_author_count_def strip_def log_output_def isspace_def)

section \<open>Properties of data_processor.py\<close>

subsection \<open>The sample inputs, evaluated\<close>

lemma Path_samples:
  "str_path (Path ''in.csv'') = ''in.csv''" "suffix (Path ''in.csv'') = ''.csv''"
  "str_path (Path ''data.CSV'') = ''data.CSV''" "suffix (Path ''data.CSV'') = ''.CSV''"
  "str_path (Path ''short.csv'') = ''short.csv''" "suffix (Path ''short.csv'') = ''.csv''"
  "str_path (Path ''header.csv'') = ''header.csv''" "suffix (Path ''header.csv'') = ''.csv''"
  "str_path (Path ''empty.csv'') = ''empty.csv''" "suffix (Path ''empty.csv'') = ''.csv''"
  "str_path (Path ''missing.csv'') = ''missing.csv''"
  "str_path (Path ''out.json'') = ''out.json''"
  "str_path (Path ''ragged.csv'') = ''ragged.csv''" "suffix (Path ''ragged.csv'') = ''.csv''"
  "str_path (Path ''long.csv'') = ''long.csv''" "suffix (Path ''long.csv'') = ''.csv''"
  by code_simp+

lemmas reader_step_defs = parse_process_char_def start_field_def add_then_def
  parse_add_char_def parse_save_field_def

lemmas reader_eval = DictReader_def parse_reset_def reader_step_defs field_limit_def
  make_row_def dict_def

lemma DictReader_sample:
  "DictReader (readlines (universal_newlines sample_csv)) =
     Inr [[(Some ''a'', Str ''1''), (Some ''b'', Str ''2'')],
          [(Some ''a'', Str ''3''), (Some ''b'', Str ''4'')]]"
  by (simp add: sample_csv_def reader_eval)


lemma dumps_sample:
  \<open>json_dumps (result_json \<lparr>data = [[(Some ''a'', Str ''1''), (Some ''b'', Str ''2'')],
                                      [(Some ''a'', Str ''3''), (Some ''b'', Str ''4'')]],
                              count = 2, source = ''in.csv''\<rparr>) =
   join [LF]
    [''{'',
     ''  "data": ['',
     ''    {'',
     ''      "a": "1",'',
     ''      "b": "2"'',
     ''    },'',
     ''    {'',
     ''      "a": "3",'',
     ''      "b": "4"'',
     ''    }'',
     ''  ],'',
     ''  "count": 2,'',
     ''  "source": "in.csv"'',
     ''}'']\<close>
  by code_simp

subsection \<open>The result\<close>

text \<open>
  Claim C1. Whenever \<open>process_csv\<close> returns a result, its \<open>count\<close> is the number of
  elements of its \<open>data\<close>.
\<close>

theorem process_csv_count:
  assumes "fst (process_csv fs input_file output_file) = Inr result"
  shows "count result = int (length (data result))"
  using assms
  by (auto simp: process_csv_def Let_def split: option.splits sum.splits if_splits)

theorem process_csv_count_witness:
  "fst (process_csv sample_fs ''in.csv'' (Some ''out.json'')) =
     Inr \<lparr>data = [[(Some ''a'', Str ''1''), (Some ''b'', Str ''2'')],
                   [(Some ''a'', Str ''3''), (Some ''b'', Str ''4'')]],
           count = 2, source = ''in.csv''\<rparr>
   \<and> count \<lparr>data = [[(Some ''a'', Str ''1''), (Some ''b'', Str ''2'')],
                     [(Some ''a'', Str ''3''), (Some ''b'', Str ''4'')]],
             count = 2, source = ''in.csv''\<rparr>
       = int (length [[(Some ''a'', Str ''1''), (Some ''b'', Str ''2'')],
                      [(Some ''a'', Str ''3''), (Some ''b'', Str ''4'')]])"
proof -
  have r: "fst (process_csv sample_fs ''in.csv'' (Some ''out.json'')) =
     Inr \<lparr>data = [[(Some ''a'', Str ''1''), (Some ''b'', Str ''2'')],
                   [(Some ''a'', Str ''3''), (Some ''b'', Str ''4'')]],
           count = 2, source = ''in.csv''\<rparr>"
    by (simp add: process_csv_def Path_samples sample_fs_def DictReader_sample Let_def)
  from process_csv_count [OF r] r show ?thesis by simp
qed

text \<open>
  Claim C2. For an existing input file with the extension \<open>.csv\<close> whose content is
  \<open>a,b\n1,2\n3,4\<close>, \<open>process_csv\<close> returns the two rows \<open>{a: "1", b: "2"}\<close> and
  \<open>{a: "3", b: "4"}\<close>, in this order, and the count 2.
\<close>

theorem process_csv_sample:
  assumes "fs (str_path (Path input_file)) = Some sample_csv"
    and "suffix (Path input_file) = ''.csv''"
  shows "fst (process_csv fs input_file output_file) =
           Inr \<lparr>data = [[(Some ''a'', Str ''1''), (Some ''b'', Str ''2'')],
                         [(Some ''a'', Str ''3''), (Some ''b'', Str ''4'')]],
                 count = 2, source = str_path (Path input_file)\<rparr>"
  using assms
  by (simp add: process_csv_def DictReader_sample Let_def split: option.splits)

theorem process_csv_sample_witness:
  "sample_fs (str_path (Path ''in.csv'')) = Some (''a,b'' @ [LF] @ ''1,2'' @ [LF] @ ''3,4'')
   \<and> suffix (Path ''in.csv'') = ''.csv''
   \<and> fst (process_csv sample_fs ''in.csv'' None) =
           Inr \<lparr>data = [[(Some ''a'', Str ''1''), (Some ''b'', Str ''2'')],
                         [(Some ''a'', Str ''3''), (Some ''b'', Str ''4'')]],
                 count = 2, source = ''in.csv''\<rparr>"
  using process_csv_sample [of sample_fs "''in.csv''" None]
  by (simp add: Path_samples sample_fs_def sample_csv_def)

subsection \<open>The output document\<close>

text \<open>
  Claim C4. Two runs that find the same content in the input file and are given the
  same output path have the same outcome, and when they succeed each leaves the same
  document in the output file: the serialised result.
\<close>

theorem process_csv_same_input_same_output:
  assumes "fs1 (str_path (Path input_file)) = fs2 (str_path (Path input_file))"
    and "out \<noteq> []"
  shows "fst (process_csv fs1 input_file (Some out)) = fst (process_csv fs2 input_file (Some out))
    \<and> (\<forall>result. fst (process_csv fs1 input_file (Some out)) = Inr result \<longrightarrow>
          snd (process_csv fs1 input_file (Some out)) (str_path (Path out))
            = Some (json_dumps (result_json result))
        \<and> snd (process_csv fs2 input_file (Some out)) (str_path (Path out))
            = Some (json_dumps (result_json result)))"
  using assms
  by (auto simp: process_csv_def Let_def split: option.splits sum.splits)

theorem process_csv_same_input_same_output_witness:
  \<open>sample_fs (str_path (Path ''in.csv'')) = (sample_fs(''out.json'' \<mapsto> ''stale'')) (str_path (Path ''in.csv''))
   \<and> ''out.json'' \<noteq> []
   \<and> snd (process_csv sample_fs ''in.csv'' (Some ''out.json'')) ''out.json''
       = snd (process_csv (sample_fs(''out.json'' \<mapsto> ''stale'')) ''in.csv'' (Some ''out.json'')) ''out.json''
   \<and> snd (process_csv sample_fs ''in.csv'' (Some ''out.json'')) ''out.json'' =
       Some (join [LF]
        [''{'',
         ''  "data": ['',
         ''    {'',
         ''      "a": "1",'',
         ''      "b": "2"'',
         ''    },'',
         ''    {'',
         ''      "a": "3",'',
         ''      "b": "4"'',
         ''    }'',
         ''  ],'',
         ''  "count": 2,'',
         ''  "source": "in.csv"'',
         ''}''])\<close>
proof -
  have i: "sample_fs (str_path (Path ''in.csv'')) =
      (sample_fs(''out.json'' \<mapsto> ''stale'')) (str_path (Path ''in.csv''))"
    by (simp add: Path_samples)
  have o: "''out.json'' \<noteq> []" by simp
  have r: "fst (process_csv sample_fs ''in.csv'' (Some ''out.json'')) =
     Inr \<lparr>data = [[(Some ''a'', Str ''1''), (Some ''b'', Str ''2'')],
                   [(Some ''a'', Str ''3''), (Some ''b'', Str ''4'')]],
           count = 2, source = ''in.csv''\<rparr>"
    by (simp add: process_csv_def Path_samples sample_fs_def DictReader_sample Let_def)
  from process_csv_same_input_same_output
      [of sample_fs "''in.csv''" "sample_fs(''out.json'' \<mapsto> ''stale'')" "''out.json''", OF i o] r
  have a: "snd (process_csv sample_fs ''in.csv'' (Some ''out.json'')) ''out.json'' =
      Some (json_dumps (result_json \<lparr>data = [[(Some ''a'', Str ''1''), (Some ''b'', Str ''2'')],
                   [(Some ''a'', Str ''3''), (Some ''b'', Str ''4'')]],
           count = 2, source = ''in.csv''\<rparr>))"
    and b: "snd (process_csv (sample_fs(''out.json'' \<mapsto> ''stale'')) ''in.csv'' (Some ''out.json''))
        ''out.json'' =
      Some (json_dumps (result_json \<lparr>data = [[(Some ''a'', Str ''1''), (Some ''b'', Str ''2'')],
                   [(Some ''a'', Str ''3''), (Some ''b'', Str ''4'')]],
           count = 2, source = ''in.csv''\<rparr>))"
    by (simp_all add: Path_samples)
  show ?thesis
    unfolding a b dumps_sample using i o by simp
qed

text \<open>
  Run twice in a row with an output path that is not the input path, the second run
  returns what the first returned and leaves the file system as the first left it.
\<close>

lemma process_csv_twice:
  assumes "str_path (Path out) \<noteq> str_path (Path input_file)"
  shows "process_csv (snd (process_csv fs input_file (Some out))) input_file (Some out)
           = process_csv fs input_file (Some out)"
  using assms
  by (auto simp: process_csv_def Let_def split: option.splits sum.splits)

subsection \<open>The preconditions\<close>

text \<open>
  Claim C5. \<open>process_csv\<close> raises \<open>FileNotFoundError\<close> when the input path does not
  exist, and \<open>ValueError\<close> when it exists and its suffix is not \<open>.csv\<close>. In both cases
  the file system is left as it was: no output file is created.
\<close>

theorem process_csv_errors:
  "(fs (str_path (Path input_file)) = None \<longrightarrow>
      process_csv fs input_file output_file = (Inl FileNotFoundError, fs))
   \<and> (fs (str_path (Path input_file)) \<noteq> None \<and> suffix (Path input_file) \<noteq> ''.csv'' \<longrightarrow>
      process_csv fs input_file output_file = (Inl ValueError, fs))"
  by (auto simp: process_csv_def Let_def)

theorem process_csv_errors_witness:
  "sample_fs (str_path (Path ''missing.csv'')) = None
   \<and> process_csv sample_fs ''missing.csv'' (Some ''out.json'') = (Inl FileNotFoundError, sample_fs)
   \<and> sample_fs ''out.json'' = None
   \<and> sample_fs (str_path (Path ''data.CSV'')) \<noteq> None
   \<and> suffix (Path ''data.CSV'') \<noteq> ''.csv''
   \<and> process_csv sample_fs ''data.CSV'' (Some ''out.json'') = (Inl ValueError, sample_fs)"
  using process_csv_errors [of sample_fs "''missing.csv''" "Some ''out.json''"]
    process_csv_errors [of sample_fs "''data.CSV''" "Some ''out.json''"]
  by (simp add: Path_samples sample_fs_def)

text \<open>
  Claim C10. The suffix is compared with \<open>.csv\<close> as it is written: an existing input
  path with any other suffix, \<open>.CSV\<close> among them, raises \<open>ValueError\<close>.
\<close>

theorem process_csv_suffix_case_sensitive:
  assumes "fs (str_path (Path input_file)) = Some content"
    and "suffix (Path input_file) \<noteq> ''.csv''"
  shows "fst (process_csv fs input_file output_file) = Inl ValueError"
  using assms by (simp add: process_csv_def Let_def)

theorem process_csv_suffix_case_sensitive_witness:
  "sample_fs (str_path (Path ''data.CSV'')) = Some sample_csv
   \<and> suffix (Path ''data.CSV'') = ''.CSV''
   \<and> ''.CSV'' \<noteq> ''.csv''
   \<and> fst (process_csv sample_fs ''data.CSV'' None) = Inl ValueError"
  using process_csv_suffix_case_sensitive [of sample_fs "''data.CSV''" sample_csv None]
  by (simp add: Path_samples sample_fs_def)

subsection \<open>The reader without the limit does not fail on a text file\<close>

lemma universal_newlines_no_CR: "CR \<notin> set (universal_newlines s)"
  by (induction s rule: universal_newlines.induct) auto

lemma universal_newlines_id: "CR \<notin> set s \<Longrightarrow> universal_newlines s = s"
  by (induction s rule: universal_newlines.induct) auto

lemma readlines_no_Nil: "[] \<notin> set (readlines s)"
  by (induction s) (auto split: list.splits)

lemma readlines_Nil_iff: "readlines s = [] \<longleftrightarrow> s = []"
  by (cases s) (auto split: list.splits)

lemma readlines_single: "s \<noteq> [] \<Longrightarrow> LF \<notin> set s \<Longrightarrow> readlines s = [s]"
proof (induction s)
  case Nil
  then show ?case by simp
next
  case (Cons c cs)
  then show ?case by (cases "cs = []") (auto simp: readlines_Nil_iff split: list.splits)
qed

lemma concat_readlines: "concat (readlines s) = s"
  by (induction s) (auto split: list.splits)

lemma readlines_subset: "l \<in> set (readlines s) \<Longrightarrow> set l \<subseteq> set s"
proof -
  assume "l \<in> set (readlines s)"
  then have "set l \<subseteq> set (concat (readlines s))" by auto
  then show ?thesis by (simp only: concat_readlines)
qed

lemma readlines_butlast: "l \<in> set (readlines s) \<Longrightarrow> LF \<notin> set (butlast l)"
proof (induction s arbitrary: l)
  case Nil
  then show ?case by simp
next
  case (Cons c cs)
  show ?case
  proof (cases "c = LF")
    case True
    with Cons show ?thesis by auto
  next
    case False
    show ?thesis
    proof (cases "readlines cs")
      case Nil
      with False Cons.prems show ?thesis by auto
    next
      case (Cons l' ls)
      then have "l' \<noteq> []" using readlines_no_Nil [of cs] by auto
      with False Cons Cons.prems Cons.IH show ?thesis by auto
    qed
  qed
qed

lemma readlines_line_ok:
  "l \<in> set (readlines (universal_newlines s)) \<Longrightarrow> line_ok l"
  using readlines_subset [of l "universal_newlines s"] universal_newlines_no_CR [of s]
    readlines_butlast [of l "universal_newlines s"]
  by (auto simp: line_ok_def)

lemma parse_process_char_EOL:
  "\<exists>self'. parse_process_char limit self EOL = Inr self'
     \<and> (state self' = START_RECORD \<or> state self' = IN_QUOTED_FIELD)"
  by (cases "state self") (auto simp: parse_process_char_def start_field_def)

lemma parse_process_char_plain:
  "state self \<noteq> EAT_CRNL \<Longrightarrow> x \<noteq> LF \<Longrightarrow> x \<noteq> CR \<Longrightarrow>
     \<exists>self'. parse_process_char None self (Ch x) = Inr self' \<and> state self' \<noteq> EAT_CRNL"
  by (cases "state self") (auto simp: reader_step_defs)

lemma parse_process_char_no_error:
  "state self \<noteq> EAT_CRNL \<Longrightarrow> \<exists>self'. parse_process_char None self (Ch x) = Inr self'"
  by (cases "state self") (auto simp: reader_step_defs)

lemma parse_line_ok:
  "line_ok l \<Longrightarrow> state self \<noteq> EAT_CRNL \<Longrightarrow>
     \<exists>self'. parse_line None self l = Inr self'
       \<and> (state self' = START_RECORD \<or> state self' = IN_QUOTED_FIELD)"
proof (induction l arbitrary: self)
  case Nil
  then show ?case using parse_process_char_EOL by simp
next
  case (Cons c cs)
  show ?case
  proof (cases "cs = []")
    case True
    from Cons.prems(2) obtain s1 where s1: "parse_process_char None self (Ch c) = Inr s1"
      using parse_process_char_no_error by blast
    then show ?thesis using True parse_process_char_EOL [of None s1] by simp
  next
    case False
    with Cons.prems(1) have c: "c \<noteq> LF" "c \<noteq> CR" and ok: "line_ok cs"
      by (auto simp: line_ok_def)
    from parse_process_char_plain [OF Cons.prems(2) c]
    obtain s1 where s1: "parse_process_char None self (Ch c) = Inr s1" "state s1 \<noteq> EAT_CRNL"
      by blast
    from Cons.IH [OF ok s1(2)] s1(1) show ?thesis by simp
  qed
qed

lemma reader_rows_total:
  "\<forall>l \<in> set lines. line_ok l \<Longrightarrow> state self \<noteq> EAT_CRNL \<Longrightarrow>
     \<exists>rows. reader_rows None self lines = Inr rows"
proof (induction lines arbitrary: self)
  case Nil
  then show ?case by simp
next
  case (Cons l ls)
  then obtain s1 where s1: "parse_line None self l = Inr s1"
      "state s1 = START_RECORD \<or> state s1 = IN_QUOTED_FIELD"
    using parse_line_ok [of l self] by auto
  have ls: "\<forall>l \<in> set ls. line_ok l" using Cons.prems by simp
  show ?case
  proof (cases "state s1 = START_RECORD")
    case True
    from Cons.IH [OF ls, of parse_reset]
    obtain rows where "reader_rows None parse_reset ls = Inr rows"
      by (auto simp: parse_reset_def)
    with s1 True show ?thesis by simp
  next
    case False
    with s1 have "state s1 \<noteq> EAT_CRNL" by auto
    from Cons.IH [OF ls this] s1 False show ?thesis by simp
  qed
qed

text \<open>
  The fields of a text file can always be measured: on the lines of a file read in
  text mode the reader without the limit yields its records and raises nothing.
\<close>

lemma text_reader_rows_total:
  "\<exists>rows. reader_rows None parse_reset (readlines (universal_newlines content)) = Inr rows"
  using reader_rows_total [of "readlines (universal_newlines content)" parse_reset]
    readlines_line_ok [of _ content]
  by (auto simp: parse_reset_def)

subsection \<open>The reader with the limit, when the fields are within it\<close>

lemma step_back:
  "parse_process_char None s c = Inr s' \<Longrightarrow> within n s' \<Longrightarrow>
     within n s \<and> parse_process_char (Some n) s c = Inr s'"
  by (cases "state s"; cases c)
    (auto simp: reader_step_defs within_def split: if_splits)

lemma step_settled:
  "settled s \<Longrightarrow> parse_process_char limit s c = Inr s' \<Longrightarrow> settled s'"
  by (cases "state s"; cases c)
    (auto simp: reader_step_defs settled_def split: if_splits sum.splits option.splits)

lemma parse_line_back:
  "parse_line None s l = Inr s' \<Longrightarrow> within n s' \<Longrightarrow>
     within n s \<and> parse_line (Some n) s l = Inr s'"
proof (induction l arbitrary: s)
  case Nil
  then show ?case using step_back [of s EOL s' n] by simp
next
  case (Cons c cs)
  from Cons.prems(1) obtain s1 where s1: "parse_process_char None s (Ch c) = Inr s1"
    and r: "parse_line None s1 cs = Inr s'"
    by (auto split: sum.splits)
  from Cons.IH [OF r Cons.prems(2)] have w: "within n s1" and l: "parse_line (Some n) s1 cs = Inr s'"
    by simp_all
  from step_back [OF s1 w] l show ?case by simp
qed

lemma parse_line_settled:
  "settled s \<Longrightarrow> parse_line limit s l = Inr s' \<Longrightarrow> settled s'"
proof (induction l arbitrary: s)
  case Nil
  then show ?case using step_settled [of s limit EOL s'] by simp
next
  case (Cons c cs)
  from Cons.prems(2) obtain s1 where s1: "parse_process_char limit s (Ch c) = Inr s1"
    and r: "parse_line limit s1 cs = Inr s'"
    by (auto split: sum.splits)
  from Cons.IH [OF step_settled [OF Cons.prems(1) s1] r] show ?case .
qed

lemma parse_line_state:
  "parse_line limit s l = Inr s' \<Longrightarrow> state s' = START_RECORD \<or> state s' = IN_QUOTED_FIELD"
proof (induction l arbitrary: s)
  case Nil
  then show ?case using parse_process_char_EOL [of limit s] by auto
next
  case (Cons c cs)
  then show ?case by (auto split: sum.splits)
qed

lemma reader_rows_back:
  "reader_rows None s ls = Inr rows \<Longrightarrow> list_all (list_all (\<lambda>f. length f \<le> n)) rows \<Longrightarrow>
     settled s \<Longrightarrow>
     reader_rows (Some n) s ls = Inr rows \<and> (state s = IN_QUOTED_FIELD \<longrightarrow> within n s)"
proof (induction ls arbitrary: s rows)
  case Nil
  then show ?case
    by (auto simp: within_def parse_save_field_def split: if_splits)
next
  case (Cons l ls)
  from Cons.prems(1) obtain s1 where s1: "parse_line None s l = Inr s1"
    by (auto split: sum.splits)
  have set1: "settled s1" using parse_line_settled [OF Cons.prems(3) s1] .
  show ?case
  proof (cases "state s1 = START_RECORD")
    case True
    with Cons.prems(1) s1 obtain rows' where r': "reader_rows None parse_reset ls = Inr rows'"
      and rows: "rows = fields' s1 # rows'"
      by (auto split: sum.splits)
    have w1: "within n s1"
      using True set1 Cons.prems(2) rows by (simp add: within_def settled_def)
    have "settled parse_reset" by (simp add: settled_def parse_reset_def)
    with Cons.IH [OF r'] Cons.prems(2) rows
    have "reader_rows (Some n) parse_reset ls = Inr rows'" by simp
    with parse_line_back [OF s1 w1] True rows show ?thesis by simp
  next
    case False
    with Cons.prems(1) s1 have r: "reader_rows None s1 ls = Inr rows" by simp
    from False parse_line_state [OF s1] have q: "state s1 = IN_QUOTED_FIELD" by simp
    from Cons.IH [OF r Cons.prems(2) set1] q
    have w1: "within n s1" and l: "reader_rows (Some n) s1 ls = Inr rows" by simp_all
    from parse_line_back [OF s1 w1] l False show ?thesis by simp
  qed
qed

text \<open>When the fields are within the limit, the reader with the limit yields the same
  records as the reader without it.\<close>

lemma reader_rows_within_limit:
  assumes "fields_within_limit lines"
  shows "\<exists>rows. reader_rows (Some field_limit) parse_reset lines = Inr rows
           \<and> reader_rows None parse_reset lines = Inr rows"
proof -
  from assms obtain rows where u: "reader_rows None parse_reset lines = Inr rows"
    and ok: "list_all (list_all (\<lambda>f. length f \<le> field_limit)) rows"
    by (auto simp: fields_within_limit_def split: sum.splits)
  have "settled parse_reset" by (simp add: settled_def parse_reset_def)
  from reader_rows_back [OF u ok this] u show ?thesis by simp
qed

text \<open>An existing input file with the suffix \<open>.csv\<close> whose fields are within the limit
  is always converted.\<close>

lemma process_csv_succeeds:
  assumes "fs (str_path (Path input_file)) = Some content"
    and "suffix (Path input_file) = ''.csv''"
    and "fields_within_limit (readlines (universal_newlines content))"
  shows "\<exists>result. fst (process_csv fs input_file output_file) = Inr result"
proof -
  from reader_rows_within_limit [OF assms(3)]
  obtain rows where "reader_rows (Some field_limit) parse_reset
      (readlines (universal_newlines content)) = Inr rows" by blast
  then obtain d where "DictReader (readlines (universal_newlines content)) = Inr d"
    by (cases rows) (simp_all add: DictReader_def)
  with assms(1,2) show ?thesis
    by (auto simp: process_csv_def Let_def split: option.splits)
qed

subsection \<open>A field beyond the limit\<close>

lemma in_field_overflow:
  "state s = IN_FIELD \<Longrightarrow> a \<noteq> CHR '','' \<Longrightarrow> a \<noteq> LF \<Longrightarrow> a \<noteq> CR \<Longrightarrow>
   length (field s) \<le> n \<Longrightarrow> n < length (field s) + k \<Longrightarrow>
   parse_line (Some n) s (replicate k a) = Inl csv_Error"
proof (induction k arbitrary: s)
  case 0
  then show ?case by simp
next
  case (Suc k)
  show ?case
  proof (cases "length (field s) = n")
    case True
    with Suc.prems show ?thesis
      by (simp add: parse_process_char_def parse_add_char_def)
  next
    case False
    let ?s1 = "s\<lparr>field := field s @ [a]\<rparr>"
    from False Suc.prems have st: "parse_process_char (Some n) s (Ch a) = Inr ?s1"
      by (simp add: parse_process_char_def parse_add_char_def)
    have "parse_line (Some n) ?s1 (replicate k a) = Inl csv_Error"
      using Suc.prems False by (intro Suc.IH) auto
    with st show ?thesis by simp
  qed
qed

lemma overlong_field_raises:
  assumes "a \<noteq> CHR '',''" "a \<noteq> LF" "a \<noteq> CR" "a \<noteq> CHR 0x22" "0 < n"
  shows "reader_rows (Some n) parse_reset (replicate (Suc n) a # rest) = Inl csv_Error"
proof -
  let ?s1 = "\<lparr>fields' = [], field = [a], state = IN_FIELD\<rparr>"
  have st: "parse_process_char (Some n) parse_reset (Ch a) = Inr ?s1"
    using assms by (simp add: reader_step_defs parse_reset_def)
  have "parse_line (Some n) ?s1 (replicate n a) = Inl csv_Error"
    using assms by (intro in_field_overflow) auto
  with st show ?thesis by simp
qed

lemma long_header_Suc: "long_header = replicate (Suc field_limit) CHR ''a''"
proof -
  have "(131073 :: nat) = Suc field_limit" by (simp add: field_limit_def)
  then show ?thesis by (simp only: long_header_def)
qed

lemma long_header_lines: "readlines (universal_newlines long_header) = [long_header]"
proof -
  have "CR \<notin> set long_header" "LF \<notin> set long_header" "long_header \<noteq> []"
    unfolding long_header_Suc by auto
  then show ?thesis by (simp add: universal_newlines_id readlines_single)
qed

lemma DictReader_long_header: "DictReader [long_header] = Inl csv_Error"
proof -
  have "reader_rows (Some field_limit) parse_reset (replicate (Suc field_limit) CHR ''a'' # [])
          = Inl csv_Error"
    by (rule overlong_field_raises) (simp_all add: field_limit_def)
  then show ?thesis by (simp add: DictReader_def long_header_Suc)
qed

subsection \<open>Files without data rows\<close>

text \<open>
  Claim C9, as the claim states it, fails: it has every file of a header line only
  converted without error. A header line whose field has 131073 characters, one more
  than the reader's limit, makes the reader raise its error, and \<open>process_csv\<close> with it.
\<close>

theorem long_header_field_raises:
  "length long_header = 131073
   \<and> readlines (universal_newlines long_header) = [long_header]
   \<and> fst (process_csv [''long.csv'' \<mapsto> long_header] ''long.csv'' None) = Inl csv_Error"
proof -
  have "length long_header = 131073" by (simp add: long_header_def)
  moreover have "fst (process_csv [''long.csv'' \<mapsto> long_header] ''long.csv'' None) = Inl csv_Error"
    by (simp add: process_csv_def Path_samples long_header_lines DictReader_long_header)
  ultimately show ?thesis using long_header_lines by simp
qed

lemma reader_rows_at_most_one_line:
  "length lines \<le> 1 \<Longrightarrow> reader_rows limit parse_reset lines = Inr rows \<Longrightarrow> length rows \<le> 1"
  by (cases lines) (auto simp: parse_reset_def split: sum.splits if_splits)

lemma DictReader_at_most_one_line:
  assumes "length lines \<le> 1" and "fields_within_limit lines"
  shows "DictReader lines = Inr []"
proof -
  from reader_rows_within_limit [OF assms(2)]
  obtain rows where r: "reader_rows (Some field_limit) parse_reset lines = Inr rows" by blast
  from reader_rows_at_most_one_line [OF assms(1) r] have "length rows \<le> 1" .
  then show ?thesis using r by (cases rows) (simp_all add: DictReader_def)
qed

text \<open>
  Claim C9, amended. For an existing input file with the suffix \<open>.csv\<close> that is empty or
  holds one line only (the header), no field of which is longer than the reader's limit
  of 131072 characters, \<open>process_csv\<close> raises nothing and returns no rows and the
  count 0.
\<close>

theorem process_csv_no_data_rows:
  assumes "fs (str_path (Path input_file)) = Some content"
    and "suffix (Path input_file) = ''.csv''"
    and "length (readlines (universal_newlines content)) \<le> 1"
    and "fields_within_limit (readlines (universal_newlines content))"
  shows "fst (process_csv fs input_file output_file) =
           Inr \<lparr>data = [], count = 0, source = str_path (Path input_file)\<rparr>"
  using assms(1,2) DictReader_at_most_one_line [OF assms(3,4)]
  by (simp add: process_csv_def Let_def split: option.splits)

theorem process_csv_no_data_rows_witness:
  "sample_fs (str_path (Path ''header.csv'')) = Some (''a,b'' @ [LF])
   \<and> suffix (Path ''header.csv'') = ''.csv''
   \<and> length (readlines (universal_newlines (''a,b'' @ [LF]))) \<le> 1
   \<and> fields_within_limit (readlines (universal_newlines (''a,b'' @ [LF])))
   \<and> fst (process_csv sample_fs ''header.csv'' None) =
           Inr \<lparr>data = [], count = 0, source = ''header.csv''\<rparr>
   \<and> sample_fs (str_path (Path ''empty.csv'')) = Some []
   \<and> suffix (Path ''empty.csv'') = ''.csv''
   \<and> length (readlines (universal_newlines [])) \<le> 1
   \<and> fields_within_limit (readlines (universal_newlines []))
   \<and> fst (process_csv sample_fs ''empty.csv'' None) =
           Inr \<lparr>data = [], count = 0, source = ''empty.csv''\<rparr>"
proof -
  have h: "fields_within_limit (readlines (universal_newlines (''a,b'' @ [LF])))"
    by (simp add: fields_within_limit_def reader_eval)
  have e: "fields_within_limit (readlines (universal_newlines []))"
    by (simp add: fields_within_limit_def reader_eval)
  from process_csv_no_data_rows [of sample_fs "''header.csv''" "''a,b'' @ [LF]" None]
    process_csv_no_data_rows [of sample_fs "''empty.csv''" "[]" None] h e
  show ?thesis by (simp add: Path_samples sample_fs_def)
qed

subsection \<open>Rows of the wrong length\<close>











end
